theory Spec2Isabelle
  imports Main "HOL-Library.Finite_Map"
begin

section \<open>Values exchanged with the narration backend\<close>

text \<open>
  The backend's reply is decoded by \<^verbatim>\<open>json.loads\<close>, so every atom, every field of an
  atom and the atom container itself is an arbitrary JSON value. The Python values are
  \<^verbatim>\<open>None\<close>, \<^verbatim>\<open>bool\<close>, \<^verbatim>\<open>int\<close> (unbounded), \<^verbatim>\<open>str\<close>, \<^verbatim>\<open>list\<close> and \<^verbatim>\<open>dict\<close> with string
  keys. JSON numbers with a fraction or an exponent (Python \<^verbatim>\<open>float\<close>) are outside this
  model.
\<close>

datatype json =
    JNull
  | JBool bool
  | JInt int
  | JStr string
  | JList "json list"
  | JObj "(string, json) fmap"

text \<open>
  Python's \<^verbatim>\<open>==\<close> on these values is structural except that \<^verbatim>\<open>bool\<close> is a subclass of
  \<^verbatim>\<open>int\<close> (\<^verbatim>\<open>True == 1\<close>, \<^verbatim>\<open>False == 0\<close>), also inside lists and dicts. \<open>norm\<close> maps a
  value to the representative of its equality class.
\<close>

primrec norm :: "json \<Rightarrow> json" where
  "norm JNull = JNull"
| "norm (JBool b) = JInt (if b then 1 else 0)"
| "norm (JInt i) = JInt i"
| "norm (JStr s) = JStr s"
| "norm (JList xs) = JList (map norm xs)"
| "norm (JObj m) = JObj (fmmap norm m)"

definition py_eq :: "json \<Rightarrow> json \<Rightarrow> bool" where
  "py_eq a b = (norm a = norm b)"

text \<open>Lists and dicts are unhashable: using one as a dict key raises \<^verbatim>\<open>TypeError\<close>.\<close>

fun hashable :: "json \<Rightarrow> bool" where
  "hashable (JList xs) = False"
| "hashable (JObj m) = False"
| "hashable v = True"

text \<open>\<^verbatim>\<open>isinstance(change, dict)\<close>.\<close>

fun is_dict :: "json \<Rightarrow> bool" where
  "is_dict (JObj m) = True"
| "is_dict v = False"

datatype error = TypeError | ValueError | AttributeError

text \<open>\<^verbatim>\<open>change.get(key)\<close> and \<^verbatim>\<open>change.get(key, default)\<close> on a dict.\<close>

definition get_default :: "(string, json) fmap \<Rightarrow> string \<Rightarrow> json \<Rightarrow> json" where
  "get_default m k d = (case fmlookup m k of None \<Rightarrow> d | Some v \<Rightarrow> v)"

definition get :: "(string, json) fmap \<Rightarrow> string \<Rightarrow> json" where
  "get m k = get_default m k JNull"

subsection \<open>The builtin \<^verbatim>\<open>int()\<close>\<close>

text \<open>
  \<^verbatim>\<open>int(s)\<close> on a string strips the surrounding whitespace (tab, line feed, vertical
  tab, form feed, carriage return and space), reads an optional sign and then decimal
  digits, where single underscores may separate digits; anything else raises
  \<^verbatim>\<open>ValueError\<close>. A string of more than 4300 digits raises \<^verbatim>\<open>ValueError\<close> as well, the
  default limit of the interpreter (interpreters older than the limit return the
  number). Only ASCII text is read here: Python also accepts the decimal digits and
  the spaces of other scripts, where this function gives \<open>None\<close>.
\<close>

definition is_space :: "char \<Rightarrow> bool" where
  "is_space c = (let n = (of_char c :: nat) in (9 \<le> n \<and> n \<le> 13) \<or> n = 32)"

definition is_digit :: "char \<Rightarrow> bool" where
  "is_digit c = (let n = (of_char c :: nat) in 48 \<le> n \<and> n \<le> 57)"

definition digit_val :: "char \<Rightarrow> nat" where
  "digit_val c = of_char c - 48"

fun parse_digits :: "nat \<Rightarrow> bool \<Rightarrow> string \<Rightarrow> nat option" where
  "parse_digits acc prev_digit [] = (if prev_digit then Some acc else None)"
| "parse_digits acc prev_digit (c # cs) =
     (if is_digit c then parse_digits (10 * acc + digit_val c) True cs
      else if c = CHR ''_'' \<and> prev_digit then parse_digits acc False cs
      else None)"

definition strip :: "string \<Rightarrow> string" where
  "strip s = rev (dropWhile is_space (rev (dropWhile is_space s)))"

definition max_str_digits :: nat where
  "max_str_digits = 4300"

definition parse_number :: "string \<Rightarrow> nat option" where
  "parse_number ds =
     (if length (filter is_digit ds) > max_str_digits then None
      else parse_digits 0 False ds)"

definition int_of_str :: "string \<Rightarrow> int option" where
  "int_of_str s =
     (case strip s of
        [] \<Rightarrow> None
      | c # cs \<Rightarrow>
          if c = CHR ''-'' then map_option (\<lambda>n. - int n) (parse_number cs)
          else if c = CHR ''+'' then map_option int (parse_number cs)
          else map_option int (parse_number (c # cs)))"

fun py_int :: "json \<Rightarrow> error + int" where
  "py_int JNull = Inl TypeError"
| "py_int (JBool b) = Inr (if b then 1 else 0)"
| "py_int (JInt i) = Inr i"
| "py_int (JStr s) = (case int_of_str s of None \<Rightarrow> Inl ValueError | Some i \<Rightarrow> Inr i)"
| "py_int (JList xs) = Inl TypeError"
| "py_int (JObj m) = Inl TypeError"

section \<open>Rule set, game state and the store of shared collections\<close>

text \<open>
  The rule set is the configuration read from \<^verbatim>\<open>rules.json\<close>, with the fields the
  engine reads, typed as the configuration has them: integer limits, flag names as
  strings. \<open>LOCKS\<close> is a dict from location to required flag, kept as an association
  list read with \<open>map_of\<close>.
\<close>

record end_conditions =
  MAX_TURNS :: int
  LOSE_ANY_FLAGS :: "string list"
  WIN_ALL_FLAGS :: "string list"

record rules =
  INVENTORY_LIMIT :: int
  LOCKS :: "(string \<times> string) list"
  END_CONDITIONS :: end_conditions
  MAX_PARAGRAPHS :: int

text \<open>
  The game state is a dict with the keys \<^verbatim>\<open>location\<close>, \<^verbatim>\<open>hp\<close>, \<^verbatim>\<open>inventory\<close>, \<^verbatim>\<open>flags\<close> and
  \<^verbatim>\<open>turns\<close>, all present, with \<^verbatim>\<open>hp\<close> and \<^verbatim>\<open>turns\<close> Python ints; so the defaults of
  \<^verbatim>\<open>new_state.get('inventory', [])\<close> and \<^verbatim>\<open>new_state.get('flags', {})\<close> are never taken.
  The location is any value, since \<^verbatim>\<open>move_to\<close> stores whatever the atom carries. Its \<^verbatim>\<open>inventory\<close> is a list object and its \<^verbatim>\<open>flags\<close> a dict object: the
  state dict holds references to them, and \<^verbatim>\<open>state.copy()\<close> copies the references, not
  the objects. The store maps each reference to the current content of its object. A
  flags dict is an association list in insertion order, whose keys are compared with
  Python's equality.
\<close>

type_synonym addr = nat

record state =
  location :: json
  hp :: int
  inventory :: addr
  flags :: addr
  turns :: int

record heap =
  list_at :: "addr \<Rightarrow> json list"
  dict_at :: "addr \<Rightarrow> (json \<times> json) list"

text \<open>\<^verbatim>\<open>x in xs\<close> and \<^verbatim>\<open>xs.remove(x)\<close> on a list.\<close>

definition list_contains :: "json list \<Rightarrow> json \<Rightarrow> bool" where
  "list_contains xs x = list_ex (\<lambda>y. py_eq y x) xs"

fun list_remove :: "json list \<Rightarrow> json \<Rightarrow> json list" where
  "list_remove [] x = []"
| "list_remove (y # ys) x = (if py_eq y x then ys else y # list_remove ys x)"

text \<open>\<^verbatim>\<open>k in d\<close> and \<^verbatim>\<open>d[k] = v\<close> on a dict, for a hashable key.\<close>

definition dict_contains :: "(json \<times> json) list \<Rightarrow> json \<Rightarrow> bool" where
  "dict_contains d k = list_ex (\<lambda>kv. py_eq (fst kv) k) d"

fun dict_set :: "(json \<times> json) list \<Rightarrow> json \<Rightarrow> json \<Rightarrow> (json \<times> json) list" where
  "dict_set [] k v = [(k, v)]"
| "dict_set (kv # d) k v =
     (if py_eq (fst kv) k then (fst kv, v) # d else kv # dict_set d k v)"

fun dict_lookup :: "(json \<times> json) list \<Rightarrow> json \<Rightarrow> json option" where
  "dict_lookup [] k = None"
| "dict_lookup (kv # d) k = (if py_eq (fst kv) k then Some (snd kv) else dict_lookup d k)"

text \<open>
  \<^verbatim>\<open>target in rules["LOCKS"]\<close> and \<^verbatim>\<open>rules["LOCKS"][target]\<close>: the keys of \<open>LOCKS\<close> are
  strings, so only a string target can be found.
\<close>

fun locks_lookup :: "(string \<times> string) list \<Rightarrow> json \<Rightarrow> string option" where
  "locks_lookup l (JStr t) = map_of l t"
| "locks_lookup l v = None"

section \<open>The atom applier\<close>

text \<open>
  One pass of the loop body of \<^verbatim>\<open>apply_state_changes\<close>. \<open>inv_ref\<close> and \<open>fl_ref\<close> are the local
  variables \<^verbatim>\<open>inventory\<close> and \<^verbatim>\<open>flags\<close>, references into the store; \<open>new_state\<close> is the
  copied state dict. An exception is the \<open>Inl\<close> result, with the store as it was left.
  Diagnostics printed to the console are not modelled.
\<close>

definition apply_change ::
  "rules \<Rightarrow> addr \<Rightarrow> addr \<Rightarrow> json \<Rightarrow> state \<Rightarrow> heap \<Rightarrow> (error + state) \<times> heap" where
  "apply_change rules inv_ref fl_ref change new_state h =
     (case change of
        JObj m \<Rightarrow>
          (let atom = get m ''atom'' in
           if py_eq atom (JStr ''move_to'') then
             (let target = get m ''target'' in
              if \<not> hashable target then (Inl TypeError, h)
              else
                (case locks_lookup (LOCKS rules) target of
                   Some required_flag \<Rightarrow>
                     if \<not> dict_contains (dict_at h fl_ref) (JStr required_flag)
                     then (Inr new_state, h)
                     else (Inr (new_state\<lparr>location := target\<rparr>), h)
                 | None \<Rightarrow> (Inr (new_state\<lparr>location := target\<rparr>), h)))
           else if py_eq atom (JStr ''add_item'') then
             (let item = get m ''item'' in
              if int (length (list_at h inv_ref)) \<ge> INVENTORY_LIMIT rules then (Inr new_state, h)
              else if \<not> list_contains (list_at h inv_ref) item
              then (Inr new_state, h\<lparr>list_at := (list_at h)(inv_ref := list_at h inv_ref @ [item])\<rparr>)
              else (Inr new_state, h))
           else if py_eq atom (JStr ''remove_item'') then
             (let item = get m ''item'' in
              if list_contains (list_at h inv_ref) item
              then (Inr new_state, h\<lparr>list_at := (list_at h)(inv_ref := list_remove (list_at h inv_ref) item)\<rparr>)
              else (Inr new_state, h))
           else if py_eq atom (JStr ''set_flag'') then
             (let flag = get m ''flag'' in
              if \<not> hashable flag then (Inl TypeError, h)
              else (Inr new_state,
                    h\<lparr>dict_at := (dict_at h)(fl_ref := dict_set (dict_at h fl_ref) flag (JBool True))\<rparr>))
           else if py_eq atom (JStr ''hp_delta'') then
             (case py_int (get_default m ''delta'' (JInt 0)) of
                Inl e \<Rightarrow> (Inl e, h)
              | Inr delta \<Rightarrow>
                  (let ns = new_state\<lparr>hp := hp new_state + delta\<rparr> in
                   if hp ns \<le> 0
                   then (Inr (ns\<lparr>hp := 0\<rparr>),
                         h\<lparr>dict_at := (dict_at h)
                              (flags ns := dict_set (dict_at h (flags ns)) (JStr ''hp_zero'') (JBool True))\<rparr>)
                   else (Inr ns, h)))
           else (Inr new_state, h))
      | _ \<Rightarrow> (Inr new_state, h))"

fun apply_loop ::
  "rules \<Rightarrow> addr \<Rightarrow> addr \<Rightarrow> json list \<Rightarrow> state \<Rightarrow> heap \<Rightarrow> (error + state) \<times> heap" where
  "apply_loop rules inv_ref fl_ref [] new_state h = (Inr new_state, h)"
| "apply_loop rules inv_ref fl_ref (change # changes) new_state h =
     (case apply_change rules inv_ref fl_ref change new_state h of
        (Inl e, h') \<Rightarrow> (Inl e, h')
      | (Inr new_state', h') \<Rightarrow> apply_loop rules inv_ref fl_ref changes new_state' h')"

text \<open>
  \<^verbatim>\<open>apply_state_changes(state, changes, rules)\<close>. A \<open>changes\<close> that is not a list, or an
  empty list, returns the caller's state. Otherwise the state dict is copied (a record
  value here, so the copy is the value itself, holding the same two references), the
  loop runs, and the two references are stored back under their keys.
\<close>

definition apply_state_changes ::
  "state \<Rightarrow> json \<Rightarrow> rules \<Rightarrow> heap \<Rightarrow> (error + state) \<times> heap" where
  "apply_state_changes st changes rules h =
     (case changes of
        JList cs \<Rightarrow>
          if cs = [] then (Inr st, h)
          else
            (let new_state = st;
                 inv_ref = inventory new_state;
                 fl_ref = flags new_state
             in case apply_loop rules inv_ref fl_ref cs new_state h of
                  (Inl e, h') \<Rightarrow> (Inl e, h')
                | (Inr ns, h') \<Rightarrow> (Inr (ns\<lparr>inventory := inv_ref, flags := fl_ref\<rparr>), h'))
      | _ \<Rightarrow> (Inr st, h))"

section \<open>The end-condition evaluator\<close>

datatype status = Lose | Win

datatype message = RanOutOfTime int | LosingCondition string | Won

text \<open>
  \<^verbatim>\<open>check_end_conditions(state, rules)\<close> returns a pair of status and message, both
  \<^verbatim>\<open>None\<close> while the game goes on. The message texts are kept as constructors that
  carry the value the text is formatted with.
\<close>

definition check_end_conditions ::
  "state \<Rightarrow> rules \<Rightarrow> heap \<Rightarrow> status option \<times> message option" where
  "check_end_conditions st rules h =
     (let end_rules = END_CONDITIONS rules;
          flag_dict = dict_at h (flags st)
      in if turns st \<ge> MAX_TURNS end_rules
         then (Some Lose, Some (RanOutOfTime (MAX_TURNS end_rules)))
         else
           (case find (\<lambda>flag. dict_contains flag_dict (JStr flag)) (LOSE_ANY_FLAGS end_rules) of
              Some flag \<Rightarrow> (Some Lose, Some (LosingCondition flag))
            | None \<Rightarrow>
                if list_all (\<lambda>flag. dict_contains flag_dict (JStr flag)) (WIN_ALL_FLAGS end_rules)
                then (Some Win, Some Won)
                else (None, None)))"

section \<open>One turn of the game loop\<close>

text \<open>
  The part of the loop of \<^verbatim>\<open>main\<close> that runs after a free-text player input: the turn
  counter is incremented, the backend is called, its reply is read with \<^verbatim>\<open>.get\<close> and
  the atoms are applied. \<open>llm_response\<close> is what \<^verbatim>\<open>call_ollama\<close> returned: \<open>None\<close> when
  the call failed or the reply was not valid JSON (\<^verbatim>\<open>call_ollama\<close> returns \<^verbatim>\<open>None\<close> in
  both handlers), otherwise the decoded value. \<^verbatim>\<open>.get\<close> exists on dicts only; on
  \<^verbatim>\<open>None\<close> and on any other value the attribute access raises \<^verbatim>\<open>AttributeError\<close>.
  \<^verbatim>\<open>re.split\<close> raises \<^verbatim>\<open>TypeError\<close> on a narration that is not a string. The transcript
  and the printed narration are not modelled.
\<close>

definition default_narration :: json where
  "default_narration = JStr ''(The AI provided no narration.)''"

fun is_str :: "json \<Rightarrow> bool" where
  "is_str (JStr s) = True"
| "is_str v = False"

definition main_turn ::
  "state \<Rightarrow> json option \<Rightarrow> rules \<Rightarrow> heap \<Rightarrow> (error + state) \<times> heap" where
  "main_turn st llm_response rules h =
     (let st1 = st\<lparr>turns := turns st + 1\<rparr> in
      case llm_response of
        None \<Rightarrow> (Inl AttributeError, h)
      | Some (JObj m) \<Rightarrow>
          (let narration = get_default m ''narration'' default_narration;
               changes = get_default m ''state_change'' (JList [])
           in case apply_state_changes st1 changes rules h of
                (Inl e, h') \<Rightarrow> (Inl e, h')
              | (Inr st2, h') \<Rightarrow>
                  if is_str narration then (Inr st2, h') else (Inl TypeError, h'))
      | Some _ \<Rightarrow> (Inl AttributeError, h))"

section \<open>The inventory invariant\<close>

text \<open>
  The bound on the length of an inventory, together with either reading of "no
  duplicates", each switched on by a flag: no two entries that are the same value
  (\<open>d\<close>), and no two entries that Python's equality identifies (\<open>dn\<close>).
\<close>

definition inv_ok :: "int \<Rightarrow> bool \<Rightarrow> bool \<Rightarrow> json list \<Rightarrow> bool" where
  "inv_ok limit d dn xs \<longleftrightarrow>
     int (length xs) \<le> limit \<and> (d \<longrightarrow> distinct xs) \<and> (dn \<longrightarrow> distinct (map norm xs))"

section \<open>Example inputs\<close>

text \<open>
  A rule set with one lock and room for one item, a fresh state whose inventory list
  lives at reference 0 and whose flags dict lives at reference 1, and a store in which
  both are empty. \<open>atom1\<close> builds an atom record with a kind and one field.
\<close>

definition ex_rules :: rules where
  "ex_rules =
     \<lparr>INVENTORY_LIMIT = 1, LOCKS = [(''cave'', ''has_torch'')],
      END_CONDITIONS =
        \<lparr>MAX_TURNS = 20, LOSE_ANY_FLAGS = [''hp_zero''], WIN_ALL_FLAGS = [''has_gem'']\<rparr>,
      MAX_PARAGRAPHS = 2\<rparr>"

definition ex_state :: state where
  "ex_state = \<lparr>location = JStr ''start'', hp = 10, inventory = 0, flags = 1, turns = 0\<rparr>"

definition ex_heap :: heap where
  "ex_heap = \<lparr>list_at = (\<lambda>a. []), dict_at = (\<lambda>a. [])\<rparr>"

definition atom1 :: "string \<Rightarrow> string \<Rightarrow> json \<Rightarrow> json" where
  "atom1 kind field v = JObj (fmap_of_list [(''atom'', JStr kind), (field, v)])"

section \<open>Basic facts\<close>

lemmas ex_defs = ex_rules_def ex_state_def ex_heap_def atom1_def

lemmas eval_defs = apply_state_changes_def apply_change_def get_def get_default_def py_eq_def
  list_contains_def dict_contains_def

lemma py_eq_refl: "py_eq x x"
  by (simp add: py_eq_def)

lemma norm_eq_JStr: "norm a = JStr s \<longleftrightarrow> a = JStr s"
  by (cases a) auto

lemma py_eq_JStr: "py_eq a (JStr s) \<longleftrightarrow> a = JStr s"
  by (simp add: py_eq_def norm_eq_JStr)

text \<open>
  The loop body, one equation for each kind of atom, and the case distinction over an
  atom that goes with them.
\<close>

lemma apply_change_not_dict:
  "(\<And>m. change \<noteq> JObj m) \<Longrightarrow> apply_change rules i f change ns h = (Inr ns, h)"
  by (cases change) (auto simp: apply_change_def)

lemma apply_change_move_to:
  "get m ''atom'' = JStr ''move_to'' \<Longrightarrow>
   apply_change rules i f (JObj m) ns h =
     (if \<not> hashable (get m ''target'') then (Inl TypeError, h)
      else case locks_lookup (LOCKS rules) (get m ''target'') of
        Some required_flag \<Rightarrow>
          if \<not> dict_contains (dict_at h f) (JStr required_flag) then (Inr ns, h)
          else (Inr (ns\<lparr>location := get m ''target''\<rparr>), h)
      | None \<Rightarrow> (Inr (ns\<lparr>location := get m ''target''\<rparr>), h))"
  by (simp add: apply_change_def py_eq_JStr Let_def)

lemma apply_change_add_item:
  "get m ''atom'' = JStr ''add_item'' \<Longrightarrow>
   apply_change rules i f (JObj m) ns h =
     (if int (length (list_at h i)) \<ge> INVENTORY_LIMIT rules then (Inr ns, h)
      else if \<not> list_contains (list_at h i) (get m ''item'')
      then (Inr ns, h\<lparr>list_at := (list_at h)(i := list_at h i @ [get m ''item''])\<rparr>)
      else (Inr ns, h))"
  by (simp add: apply_change_def py_eq_JStr Let_def)

lemma apply_change_remove_item:
  "get m ''atom'' = JStr ''remove_item'' \<Longrightarrow>
   apply_change rules i f (JObj m) ns h =
     (if list_contains (list_at h i) (get m ''item'')
      then (Inr ns, h\<lparr>list_at := (list_at h)(i := list_remove (list_at h i) (get m ''item''))\<rparr>)
      else (Inr ns, h))"
  by (simp add: apply_change_def py_eq_JStr Let_def)

lemma apply_change_set_flag:
  "get m ''atom'' = JStr ''set_flag'' \<Longrightarrow>
   apply_change rules i f (JObj m) ns h =
     (if \<not> hashable (get m ''flag'') then (Inl TypeError, h)
      else (Inr ns, h\<lparr>dict_at := (dict_at h)(f := dict_set (dict_at h f) (get m ''flag'') (JBool True))\<rparr>))"
  by (simp add: apply_change_def py_eq_JStr Let_def)

lemma apply_change_hp_delta:
  "get m ''atom'' = JStr ''hp_delta'' \<Longrightarrow>
   apply_change rules i f (JObj m) ns h =
     (case py_int (get_default m ''delta'' (JInt 0)) of
        Inl e \<Rightarrow> (Inl e, h)
      | Inr delta \<Rightarrow>
          if hp ns + delta \<le> 0
          then (Inr (ns\<lparr>hp := 0\<rparr>),
                h\<lparr>dict_at := (dict_at h)
                     (flags ns := dict_set (dict_at h (flags ns)) (JStr ''hp_zero'') (JBool True))\<rparr>)
          else (Inr (ns\<lparr>hp := hp ns + delta\<rparr>), h))"
  by (simp add: apply_change_def py_eq_JStr Let_def split: sum.splits)

lemma apply_change_unknown:
  "get m ''atom'' \<noteq> JStr ''move_to'' \<Longrightarrow> get m ''atom'' \<noteq> JStr ''add_item'' \<Longrightarrow>
   get m ''atom'' \<noteq> JStr ''remove_item'' \<Longrightarrow> get m ''atom'' \<noteq> JStr ''set_flag'' \<Longrightarrow>
   get m ''atom'' \<noteq> JStr ''hp_delta'' \<Longrightarrow>
   apply_change rules i f (JObj m) ns h = (Inr ns, h)"
  by (simp add: apply_change_def py_eq_JStr Let_def)

lemma change_cases [case_names NotDict Move Add Remove Flag Hp Unknown]:
  obtains "\<And>m. change \<noteq> JObj m"
  | m where "change = JObj m" "get m ''atom'' = JStr ''move_to''"
  | m where "change = JObj m" "get m ''atom'' = JStr ''add_item''"
  | m where "change = JObj m" "get m ''atom'' = JStr ''remove_item''"
  | m where "change = JObj m" "get m ''atom'' = JStr ''set_flag''"
  | m where "change = JObj m" "get m ''atom'' = JStr ''hp_delta''"
  | m where "change = JObj m" "get m ''atom'' \<noteq> JStr ''move_to''" "get m ''atom'' \<noteq> JStr ''add_item''"
      "get m ''atom'' \<noteq> JStr ''remove_item''" "get m ''atom'' \<noteq> JStr ''set_flag''"
      "get m ''atom'' \<noteq> JStr ''hp_delta''"
  by (cases change) blast+

lemma apply_change_fields:
  assumes "apply_change rules i f change ns h = (Inr ns', h')"
  shows "inventory ns' = inventory ns \<and> flags ns' = flags ns \<and> turns ns' = turns ns"
proof (cases change rule: change_cases)
  case NotDict then show ?thesis using assms by (simp add: apply_change_not_dict)
next
  case (Move m) then show ?thesis using assms
    by (auto simp: apply_change_move_to split: if_splits option.splits)
next
  case (Add m) then show ?thesis using assms
    by (auto simp: apply_change_add_item split: if_splits)
next
  case (Remove m) then show ?thesis using assms
    by (auto simp: apply_change_remove_item split: if_splits)
next
  case (Flag m) then show ?thesis using assms
    by (auto simp: apply_change_set_flag split: if_splits)
next
  case (Hp m) then show ?thesis using assms
    by (auto simp: apply_change_hp_delta split: if_splits sum.splits)
next
  case (Unknown m) then show ?thesis using assms by (simp add: apply_change_unknown)
qed

lemma apply_loop_fields:
  "apply_loop rules i f changes ns h = (Inr ns', h') \<Longrightarrow>
   inventory ns' = inventory ns \<and> flags ns' = flags ns \<and> turns ns' = turns ns"
proof (induction changes arbitrary: ns h)
  case Nil then show ?case by simp
next
  case (Cons c cs)
  then show ?case
    by (auto split: prod.splits sum.splits dest!: apply_change_fields)
qed

lemma apply_loop_append:
  "apply_loop rules i f (xs @ ys) ns h =
     (case apply_loop rules i f xs ns h of
        (Inl e, h') \<Rightarrow> (Inl e, h')
      | (Inr ns', h') \<Rightarrow> apply_loop rules i f ys ns' h')"
  by (induction xs arbitrary: ns h) (auto split: prod.splits sum.splits)

text \<open>
  On a list of atoms the applier is the loop itself: the two references stored back at
  the end are the ones the state already holds.
\<close>

lemma apply_state_changes_loop:
  "apply_state_changes st (JList cs) rules h = apply_loop rules (inventory st) (flags st) cs st h"
proof (cases "apply_loop rules (inventory st) (flags st) cs st h")
  case (Pair r h')
  show ?thesis
  proof (cases r)
    case (Inl e)
    with Pair show ?thesis
      by (cases cs) (simp_all add: apply_state_changes_def)
  next
    case (Inr ns)
    with Pair have "inventory ns = inventory st \<and> flags ns = flags st"
      using apply_loop_fields by blast
    then have "ns\<lparr>inventory := inventory st, flags := flags st\<rparr> = ns"
      by simp
    with Pair Inr show ?thesis
      by (cases cs) (simp_all add: apply_state_changes_def)
  qed
qed

lemma apply_state_changes_not_list:
  "(\<And>cs. changes \<noteq> JList cs) \<Longrightarrow> apply_state_changes st changes rules h = (Inr st, h)"
  by (cases changes) (auto simp: apply_state_changes_def)

section \<open>End conditions\<close>

text \<open>
  C4. The evaluator checks the turn limit first, then the lose flags, then the win
  flags. A state whose turn counter has reached \<open>MAX_TURNS\<close> is lost with the
  out-of-time message, whatever its flags are. Below the turn limit, a state in which
  some lose flag is present is lost, with the message naming the first such flag of
  \<open>LOSE_ANY_FLAGS\<close>, even when every win flag is present. Below the turn limit and with
  no lose flag present, the state is won when every win flag is present, and the game
  goes on otherwise.
\<close>

theorem check_end_conditions_precedence:
  "(turns st \<ge> MAX_TURNS (END_CONDITIONS rules) \<longrightarrow>
      check_end_conditions st rules h =
        (Some Lose, Some (RanOutOfTime (MAX_TURNS (END_CONDITIONS rules))))) \<and>
   (turns st < MAX_TURNS (END_CONDITIONS rules) \<and>
    list_ex (\<lambda>flag. dict_contains (dict_at h (flags st)) (JStr flag))
      (LOSE_ANY_FLAGS (END_CONDITIONS rules)) \<longrightarrow>
      find (\<lambda>flag. dict_contains (dict_at h (flags st)) (JStr flag))
        (LOSE_ANY_FLAGS (END_CONDITIONS rules)) \<noteq> None \<and>
      check_end_conditions st rules h =
        (Some Lose,
         map_option LosingCondition
           (find (\<lambda>flag. dict_contains (dict_at h (flags st)) (JStr flag))
              (LOSE_ANY_FLAGS (END_CONDITIONS rules))))) \<and>
   (turns st < MAX_TURNS (END_CONDITIONS rules) \<and>
    \<not> list_ex (\<lambda>flag. dict_contains (dict_at h (flags st)) (JStr flag))
      (LOSE_ANY_FLAGS (END_CONDITIONS rules)) \<and>
    list_all (\<lambda>flag. dict_contains (dict_at h (flags st)) (JStr flag))
      (WIN_ALL_FLAGS (END_CONDITIONS rules)) \<longrightarrow>
      check_end_conditions st rules h = (Some Win, Some Won)) \<and>
   (turns st < MAX_TURNS (END_CONDITIONS rules) \<and>
    \<not> list_ex (\<lambda>flag. dict_contains (dict_at h (flags st)) (JStr flag))
      (LOSE_ANY_FLAGS (END_CONDITIONS rules)) \<and>
    \<not> list_all (\<lambda>flag. dict_contains (dict_at h (flags st)) (JStr flag))
      (WIN_ALL_FLAGS (END_CONDITIONS rules)) \<longrightarrow>
      check_end_conditions st rules h = (None, None))"
proof -
  let ?P = "\<lambda>flag. dict_contains (dict_at h (flags st)) (JStr flag)"
  let ?lose = "LOSE_ANY_FLAGS (END_CONDITIONS rules)"
  have some: "find ?P ?lose \<noteq> None" if "list_ex ?P ?lose"
    using that by (auto simp: find_None_iff list_ex_iff)
  have none: "find ?P ?lose = None" if "\<not> list_ex ?P ?lose"
    using that by (simp add: find_None_iff list_ex_iff)
  show ?thesis
  proof (intro conjI impI)
    assume "turns st \<ge> MAX_TURNS (END_CONDITIONS rules)"
    then show "check_end_conditions st rules h =
        (Some Lose, Some (RanOutOfTime (MAX_TURNS (END_CONDITIONS rules))))"
      by (simp add: check_end_conditions_def)
  next
    assume a: "turns st < MAX_TURNS (END_CONDITIONS rules) \<and> list_ex ?P ?lose"
    then show "find ?P ?lose \<noteq> None" using some by blast
    with a show "check_end_conditions st rules h =
        (Some Lose, map_option LosingCondition (find ?P ?lose))"
      by (auto simp: check_end_conditions_def)
  next
    assume a: "turns st < MAX_TURNS (END_CONDITIONS rules) \<and> \<not> list_ex ?P ?lose \<and>
      list_all ?P (WIN_ALL_FLAGS (END_CONDITIONS rules))"
    with none show "check_end_conditions st rules h = (Some Win, Some Won)"
      by (simp add: check_end_conditions_def)
  next
    assume a: "turns st < MAX_TURNS (END_CONDITIONS rules) \<and> \<not> list_ex ?P ?lose \<and>
      \<not> list_all ?P (WIN_ALL_FLAGS (END_CONDITIONS rules))"
    with none show "check_end_conditions st rules h = (None, None)"
      by (simp add: check_end_conditions_def)
  qed
qed

theorem check_end_conditions_precedence_witness:
  "check_end_conditions (ex_state\<lparr>turns := 20\<rparr>) ex_rules
     (ex_heap\<lparr>dict_at := (dict_at ex_heap)
        (1 := [(JStr ''has_gem'', JBool True), (JStr ''hp_zero'', JBool True)])\<rparr>)
     = (Some Lose, Some (RanOutOfTime 20)) \<and>
   check_end_conditions ex_state ex_rules
     (ex_heap\<lparr>dict_at := (dict_at ex_heap)
        (1 := [(JStr ''has_gem'', JBool True), (JStr ''hp_zero'', JBool True)])\<rparr>)
     = (Some Lose, Some (LosingCondition ''hp_zero'')) \<and>
   check_end_conditions ex_state ex_rules
     (ex_heap\<lparr>dict_at := (dict_at ex_heap)(1 := [(JStr ''has_gem'', JBool True)])\<rparr>)
     = (Some Win, Some Won) \<and>
   check_end_conditions ex_state ex_rules ex_heap = (None, None)"
  using check_end_conditions_precedence [where st = "ex_state\<lparr>turns := 20\<rparr>" and rules = ex_rules
      and h = "ex_heap\<lparr>dict_at := (dict_at ex_heap)
        (1 := [(JStr ''has_gem'', JBool True), (JStr ''hp_zero'', JBool True)])\<rparr>"]
    check_end_conditions_precedence [where st = ex_state and rules = ex_rules
      and h = "ex_heap\<lparr>dict_at := (dict_at ex_heap)
         (1 := [(JStr ''has_gem'', JBool True), (JStr ''hp_zero'', JBool True)])\<rparr>"]
    check_end_conditions_precedence [where st = ex_state and rules = ex_rules
      and h = "ex_heap\<lparr>dict_at := (dict_at ex_heap)(1 := [(JStr ''has_gem'', JBool True)])\<rparr>"]
    check_end_conditions_precedence [where st = ex_state and rules = ex_rules and h = ex_heap]
  by (simp add: ex_defs dict_contains_def py_eq_def)

text \<open>
  C10. With an empty \<open>WIN_ALL_FLAGS\<close>, every state below the turn limit in which no
  lose flag is present is reported as won.
\<close>

theorem check_end_conditions_empty_win_flags:
  "WIN_ALL_FLAGS (END_CONDITIONS rules) = [] \<and>
   turns st < MAX_TURNS (END_CONDITIONS rules) \<and>
   \<not> list_ex (\<lambda>flag. dict_contains (dict_at h (flags st)) (JStr flag))
       (LOSE_ANY_FLAGS (END_CONDITIONS rules))
   \<longrightarrow> check_end_conditions st rules h = (Some Win, Some Won)"
proof
  let ?P = "\<lambda>flag. dict_contains (dict_at h (flags st)) (JStr flag)"
  assume a: "WIN_ALL_FLAGS (END_CONDITIONS rules) = [] \<and>
    turns st < MAX_TURNS (END_CONDITIONS rules) \<and>
    \<not> list_ex ?P (LOSE_ANY_FLAGS (END_CONDITIONS rules))"
  then have "find ?P (LOSE_ANY_FLAGS (END_CONDITIONS rules)) = None"
    by (simp add: find_None_iff list_ex_iff)
  with a show "check_end_conditions st rules h = (Some Win, Some Won)"
    by (simp add: check_end_conditions_def)
qed

theorem check_end_conditions_empty_win_flags_witness:
  "WIN_ALL_FLAGS (END_CONDITIONS (ex_rules\<lparr>END_CONDITIONS :=
       \<lparr>MAX_TURNS = 20, LOSE_ANY_FLAGS = [''hp_zero''], WIN_ALL_FLAGS = []\<rparr>\<rparr>)) = [] \<and>
   turns ex_state < 20 \<and>
   check_end_conditions ex_state
     (ex_rules\<lparr>END_CONDITIONS :=
       \<lparr>MAX_TURNS = 20, LOSE_ANY_FLAGS = [''hp_zero''], WIN_ALL_FLAGS = []\<rparr>\<rparr>) ex_heap
     = (Some Win, Some Won)"
  using check_end_conditions_empty_win_flags [where rules = "ex_rules\<lparr>END_CONDITIONS :=
       \<lparr>MAX_TURNS = 20, LOSE_ANY_FLAGS = [''hp_zero''], WIN_ALL_FLAGS = []\<rparr>\<rparr>"
      and st = ex_state and h = ex_heap]
  by (simp add: ex_defs dict_contains_def)

section \<open>Exceptions\<close>

text \<open>
  C1. The applier is meant never to raise on malformed input. It does raise: an
  \<^verbatim>\<open>hp_delta\<close> atom whose \<^verbatim>\<open>delta\<close> is the string \<^verbatim>\<open>"abc"\<close> makes \<^verbatim>\<open>int()\<close> raise
  \<^verbatim>\<open>ValueError\<close>, the call is aborted, and the \<^verbatim>\<open>move_to\<close> atom after it is never
  processed.
\<close>

theorem apply_state_changes_raises_on_non_numeric_delta:
  "apply_state_changes ex_state
     (JList [atom1 ''hp_delta'' ''delta'' (JStr ''abc''),
             atom1 ''move_to'' ''target'' (JStr ''forest'')])
     ex_rules ex_heap = (Inl ValueError, ex_heap)"
  by (simp add: ex_defs eval_defs int_of_str_def strip_def is_space_def is_digit_def
      parse_number_def max_str_digits_def)

text \<open>
  C2. When the backend call yields no structured record, the turn is meant to go on
  with zero atoms applied. In \<^verbatim>\<open>main\<close> the reply \<^verbatim>\<open>None\<close> is read with \<^verbatim>\<open>.get\<close>, which
  raises \<^verbatim>\<open>AttributeError\<close>; nothing catches it, so the turn loop ends there.
\<close>

theorem main_turn_raises_without_response:
  "main_turn st None rules h = (Inl AttributeError, h)"
  by (simp add: main_turn_def)

section \<open>Aliasing of the caller's collections\<close>

text \<open>
  C3. The applier is meant to leave the caller's state as it was. The copy it takes is
  shallow: the inventory list and the flags dict of the caller's state are the objects
  the loop appends to and stores into. After an \<^verbatim>\<open>add_item\<close> and a \<^verbatim>\<open>set_flag\<close>, the
  caller's own state, read through the store after the call, holds the new item and
  the new flag, where before the call both collections were empty.
\<close>

theorem apply_state_changes_mutates_caller_collections:
  "apply_state_changes ex_state
     (JList [atom1 ''add_item'' ''item'' (JStr ''sword''),
             atom1 ''set_flag'' ''flag'' (JStr ''seen'')])
     ex_rules ex_heap =
     (Inr ex_state,
      ex_heap\<lparr>list_at := (list_at ex_heap)(inventory ex_state := [JStr ''sword'']),
              dict_at := (dict_at ex_heap)(flags ex_state := [(JStr ''seen'', JBool True)])\<rparr>) \<and>
   list_at ex_heap (inventory ex_state) = [] \<and>
   dict_at ex_heap (flags ex_state) = []"
  by (simp add: ex_defs eval_defs)

section \<open>Health\<close>

lemma apply_change_hp_nonneg:
  assumes "apply_change rules i f change ns h = (Inr ns', h')" and "0 \<le> hp ns"
  shows "0 \<le> hp ns'"
proof (cases change rule: change_cases)
  case NotDict then show ?thesis using assms by (simp add: apply_change_not_dict)
next
  case (Move m) then show ?thesis using assms
    by (auto simp: apply_change_move_to split: if_splits option.splits)
next
  case (Add m) then show ?thesis using assms
    by (auto simp: apply_change_add_item split: if_splits)
next
  case (Remove m) then show ?thesis using assms
    by (auto simp: apply_change_remove_item split: if_splits)
next
  case (Flag m) then show ?thesis using assms
    by (auto simp: apply_change_set_flag split: if_splits)
next
  case (Hp m) then show ?thesis using assms
    by (auto simp: apply_change_hp_delta split: if_splits sum.splits)
next
  case (Unknown m) then show ?thesis using assms by (simp add: apply_change_unknown)
qed

lemma apply_loop_hp_nonneg:
  "apply_loop rules i f changes ns h = (Inr ns', h') \<Longrightarrow> 0 \<le> hp ns \<Longrightarrow> 0 \<le> hp ns'"
proof (induction changes arbitrary: ns h)
  case Nil then show ?case by simp
next
  case (Cons c cs)
  obtain r h1 where step: "apply_change rules i f c ns h = (r, h1)"
    by (cases "apply_change rules i f c ns h")
  with Cons.prems obtain ns1 where r: "r = Inr ns1"
    by (cases r) auto
  with step Cons.prems have "0 \<le> hp ns1"
    using apply_change_hp_nonneg by blast
  moreover from step r Cons.prems have "apply_loop rules i f cs ns1 h1 = (Inr ns', h')"
    by simp
  ultimately show ?case using Cons.IH by blast
qed

lemma dict_lookup_dict_set: "dict_lookup (dict_set d k v) k = Some v"
  by (induction d) (simp_all add: py_eq_refl)

lemma dict_set_keeps_true:
  "dict_lookup d k = Some (JBool True) \<Longrightarrow>
   dict_lookup (dict_set d k' (JBool True)) k = Some (JBool True)"
  by (induction d) (auto split: if_splits)

lemma apply_change_keeps_true:
  assumes "apply_change rules i f change ns h = (Inr ns', h')"
    and "dict_lookup (dict_at h a) k = Some (JBool True)"
  shows "dict_lookup (dict_at h' a) k = Some (JBool True)"
proof (cases change rule: change_cases)
  case NotDict then show ?thesis using assms by (simp add: apply_change_not_dict)
next
  case (Move m) then show ?thesis using assms
    by (auto simp: apply_change_move_to split: if_splits option.splits)
next
  case (Add m) then show ?thesis using assms
    by (auto simp: apply_change_add_item split: if_splits)
next
  case (Remove m) then show ?thesis using assms
    by (auto simp: apply_change_remove_item split: if_splits)
next
  case (Flag m) then show ?thesis using assms
    by (auto simp: apply_change_set_flag dict_set_keeps_true split: if_splits)
next
  case (Hp m) then show ?thesis using assms
    by (auto simp: apply_change_hp_delta dict_set_keeps_true split: if_splits sum.splits)
next
  case (Unknown m) then show ?thesis using assms by (simp add: apply_change_unknown)
qed

lemma apply_loop_keeps_true:
  "apply_loop rules i f changes ns h = (Inr ns', h') \<Longrightarrow>
   dict_lookup (dict_at h a) k = Some (JBool True) \<Longrightarrow>
   dict_lookup (dict_at h' a) k = Some (JBool True)"
proof (induction changes arbitrary: ns h)
  case Nil then show ?case by simp
next
  case (Cons c cs)
  obtain r h1 where step: "apply_change rules i f c ns h = (r, h1)"
    by (cases "apply_change rules i f c ns h")
  with Cons.prems obtain ns1 where r: "r = Inr ns1"
    by (cases r) auto
  with step Cons.prems have "dict_lookup (dict_at h1 a) k = Some (JBool True)"
    using apply_change_keeps_true by blast
  moreover from step r Cons.prems have "apply_loop rules i f cs ns1 h1 = (Inr ns', h')"
    by simp
  ultimately show ?case using Cons.IH by blast
qed

text \<open>
  The health after a clamping \<^verbatim>\<open>hp_delta\<close> is 0 only until the next atom: from health 3,
  a delta of \<open>-5\<close> clamps to 0 and sets \<^verbatim>\<open>hp_zero\<close>, and the delta of 4 after it gives
  the returned state health 4.
\<close>

theorem hp_raised_after_clamp_counterexample:
  "hp (ex_state\<lparr>hp := 3\<rparr>) + (- 5) \<le> 0 \<and>
   apply_state_changes (ex_state\<lparr>hp := 3\<rparr>)
     (JList [atom1 ''hp_delta'' ''delta'' (JInt (- 5)), atom1 ''hp_delta'' ''delta'' (JInt 4)])
     ex_rules ex_heap =
     (Inr (ex_state\<lparr>hp := 4\<rparr>),
      ex_heap\<lparr>dict_at := (dict_at ex_heap)(1 := [(JStr ''hp_zero'', JBool True)])\<rparr>) \<and>
   hp (ex_state\<lparr>hp := 4\<rparr>) \<noteq> 0"
  by (simp add: ex_defs eval_defs)

text \<open>
  C5, amended. From a state with \<open>hp \<ge> 0\<close>, whatever the atoms are, the state the
  applier returns has \<open>hp \<ge> 0\<close>. When the atoms before an \<^verbatim>\<open>hp_delta\<close> atom leave a
  health that its delta brings to zero or below, the call on the list up to and
  including this atom returns, with \<open>hp\<close> exactly 0 and the flag \<^verbatim>\<open>hp_zero\<close> stored as
  \<^verbatim>\<open>True\<close>; and whatever atoms follow, the state returned for the whole list still holds
  \<^verbatim>\<open>hp_zero\<close> as \<^verbatim>\<open>True\<close>.
\<close>

theorem hp_never_negative:
  "(0 \<le> hp st \<and> apply_state_changes st changes rules h = (Inr st', h') \<longrightarrow> 0 \<le> hp st') \<and>
   (apply_loop rules (inventory st) (flags st) pre st h = (Inr ns, h1) \<and>
    get m ''atom'' = JStr ''hp_delta'' \<and>
    py_int (get_default m ''delta'' (JInt 0)) = Inr delta \<and>
    hp ns + delta \<le> 0 \<longrightarrow>
      (\<exists>st2 h2. apply_state_changes st (JList (pre @ [JObj m])) rules h = (Inr st2, h2) \<and>
         hp st2 = 0 \<and>
         dict_lookup (dict_at h2 (flags st2)) (JStr ''hp_zero'') = Some (JBool True)) \<and>
      (apply_state_changes st (JList (pre @ JObj m # post)) rules h = (Inr st3, h3) \<longrightarrow>
         dict_lookup (dict_at h3 (flags st3)) (JStr ''hp_zero'') = Some (JBool True)))"
proof (intro conjI impI)
  assume a: "0 \<le> hp st \<and> apply_state_changes st changes rules h = (Inr st', h')"
  show "0 \<le> hp st'"
  proof (cases changes)
    case (JList cs)
    with a show ?thesis
      using apply_loop_hp_nonneg by (simp add: apply_state_changes_loop) blast
  qed (use a in \<open>auto simp: apply_state_changes_def\<close>)
next
  assume a: "apply_loop rules (inventory st) (flags st) pre st h = (Inr ns, h1) \<and>
    get m ''atom'' = JStr ''hp_delta'' \<and>
    py_int (get_default m ''delta'' (JInt 0)) = Inr delta \<and>
    hp ns + delta \<le> 0"
  let ?h2 = "h1\<lparr>dict_at := (dict_at h1)
      (flags ns := dict_set (dict_at h1 (flags ns)) (JStr ''hp_zero'') (JBool True))\<rparr>"
  from a have step: "apply_change rules (inventory st) (flags st) (JObj m) ns h1 = (Inr (ns\<lparr>hp := 0\<rparr>), ?h2)"
    by (simp add: apply_change_hp_delta)
  from a have fl: "flags ns = flags st"
    using apply_loop_fields by blast
  have set: "dict_lookup (dict_at ?h2 (flags st)) (JStr ''hp_zero'') = Some (JBool True)"
    by (simp add: fl dict_lookup_dict_set)
  from a step have "apply_state_changes st (JList (pre @ [JObj m])) rules h = (Inr (ns\<lparr>hp := 0\<rparr>), ?h2)"
    by (simp add: apply_state_changes_loop apply_loop_append)
  with set fl show "\<exists>st2 h2. apply_state_changes st (JList (pre @ [JObj m])) rules h = (Inr st2, h2) \<and>
         hp st2 = 0 \<and>
         dict_lookup (dict_at h2 (flags st2)) (JStr ''hp_zero'') = Some (JBool True)"
    by (intro exI [of _ "ns\<lparr>hp := 0\<rparr>"] exI [of _ ?h2]) simp
  show "dict_lookup (dict_at h3 (flags st3)) (JStr ''hp_zero'') = Some (JBool True)"
    if ret: "apply_state_changes st (JList (pre @ JObj m # post)) rules h = (Inr st3, h3)"
  proof -
    from ret a step have rest: "apply_loop rules (inventory st) (flags st) post (ns\<lparr>hp := 0\<rparr>) ?h2 = (Inr st3, h3)"
      by (simp add: apply_state_changes_loop apply_loop_append)
    then have "flags st3 = flags st"
      using apply_loop_fields [OF rest] fl by simp
    with rest set show ?thesis
      using apply_loop_keeps_true by simp
  qed
qed

theorem hp_never_negative_witness:
  "0 \<le> hp (ex_state\<lparr>hp := 3\<rparr>) \<and>
   apply_state_changes (ex_state\<lparr>hp := 3\<rparr>)
     (JList [atom1 ''hp_delta'' ''delta'' (JInt (- 5)), atom1 ''hp_delta'' ''delta'' (JInt 4)])
     ex_rules ex_heap =
     (Inr (ex_state\<lparr>hp := 4\<rparr>),
      ex_heap\<lparr>dict_at := (dict_at ex_heap)(1 := [(JStr ''hp_zero'', JBool True)])\<rparr>) \<and>
   0 \<le> hp (ex_state\<lparr>hp := 4\<rparr>) \<and>
   hp (ex_state\<lparr>hp := 3\<rparr>) + (- 5) \<le> 0 \<and>
   (\<exists>st2 h2. apply_state_changes (ex_state\<lparr>hp := 3\<rparr>)
        (JList ([] @ [JObj (fmap_of_list [(''atom'', JStr ''hp_delta''), (''delta'', JInt (- 5))])]))
        ex_rules ex_heap = (Inr st2, h2) \<and>
      hp st2 = 0 \<and> dict_lookup (dict_at h2 (flags st2)) (JStr ''hp_zero'') = Some (JBool True)) \<and>
   dict_lookup
     (dict_at (ex_heap\<lparr>dict_at := (dict_at ex_heap)(1 := [(JStr ''hp_zero'', JBool True)])\<rparr>)
        (flags (ex_state\<lparr>hp := 4\<rparr>)))
     (JStr ''hp_zero'') = Some (JBool True)"
  using hp_never_negative [where st = "ex_state\<lparr>hp := 3\<rparr>"
      and changes = "JList [atom1 ''hp_delta'' ''delta'' (JInt (- 5)),
                            atom1 ''hp_delta'' ''delta'' (JInt 4)]"
      and rules = ex_rules and h = ex_heap and st' = "ex_state\<lparr>hp := 4\<rparr>"
      and h' = "ex_heap\<lparr>dict_at := (dict_at ex_heap)(1 := [(JStr ''hp_zero'', JBool True)])\<rparr>"
      and pre = "[]" and ns = "ex_state\<lparr>hp := 3\<rparr>" and ?h1.0 = ex_heap
      and m = "fmap_of_list [(''atom'', JStr ''hp_delta''), (''delta'', JInt (- 5))]"
      and delta = "- 5"
      and post = "[atom1 ''hp_delta'' ''delta'' (JInt 4)]"
      and ?st3.0 = "ex_state\<lparr>hp := 4\<rparr>"
      and ?h3.0 = "ex_heap\<lparr>dict_at := (dict_at ex_heap)(1 := [(JStr ''hp_zero'', JBool True)])\<rparr>"]
  by (simp add: ex_defs eval_defs)

section \<open>Movement\<close>

text \<open>
  C6. For a \<^verbatim>\<open>move_to\<close> atom whose target can be looked up in \<open>LOCKS\<close> (any target
  but a list or a dict, so every location name): when the target is locked and the
  flags lack the required flag, the applier returns the state as it was, location
  included; when the target is locked and the required flag is present, or when the
  target is not locked, the returned state's location is the target.
\<close>

theorem move_to_respects_locks:
  "get m ''atom'' = JStr ''move_to'' \<and> hashable (get m ''target'') \<longrightarrow>
     (locks_lookup (LOCKS rules) (get m ''target'') = Some required_flag \<and>
      \<not> dict_contains (dict_at h (flags st)) (JStr required_flag) \<longrightarrow>
        apply_state_changes st (JList [JObj m]) rules h = (Inr st, h)) \<and>
     (locks_lookup (LOCKS rules) (get m ''target'') = Some required_flag \<and>
      dict_contains (dict_at h (flags st)) (JStr required_flag) \<longrightarrow>
        apply_state_changes st (JList [JObj m]) rules h =
          (Inr (st\<lparr>location := get m ''target''\<rparr>), h)) \<and>
     (locks_lookup (LOCKS rules) (get m ''target'') = None \<longrightarrow>
        apply_state_changes st (JList [JObj m]) rules h =
          (Inr (st\<lparr>location := get m ''target''\<rparr>), h))"
  by (simp add: apply_state_changes_loop apply_change_move_to)

theorem move_to_respects_locks_witness:
  "apply_state_changes ex_state (JList [atom1 ''move_to'' ''target'' (JStr ''cave'')]) ex_rules ex_heap
     = (Inr ex_state, ex_heap) \<and>
   apply_state_changes ex_state (JList [atom1 ''move_to'' ''target'' (JStr ''cave'')]) ex_rules
       (ex_heap\<lparr>dict_at := (dict_at ex_heap)(1 := [(JStr ''has_torch'', JBool True)])\<rparr>)
     = (Inr (ex_state\<lparr>location := JStr ''cave''\<rparr>),
        ex_heap\<lparr>dict_at := (dict_at ex_heap)(1 := [(JStr ''has_torch'', JBool True)])\<rparr>) \<and>
   apply_state_changes ex_state (JList [atom1 ''move_to'' ''target'' (JStr ''forest'')]) ex_rules ex_heap
     = (Inr (ex_state\<lparr>location := JStr ''forest''\<rparr>), ex_heap)"
  using move_to_respects_locks [where m = "fmap_of_list [(''atom'', JStr ''move_to''), (''target'', JStr ''cave'')]"
      and rules = ex_rules and required_flag = "''has_torch''"
      and h = ex_heap and st = ex_state]
    move_to_respects_locks [where m = "fmap_of_list [(''atom'', JStr ''move_to''), (''target'', JStr ''cave'')]"
      and rules = ex_rules and required_flag = "''has_torch''"
      and h = "ex_heap\<lparr>dict_at := (dict_at ex_heap)(1 := [(JStr ''has_torch'', JBool True)])\<rparr>"
      and st = ex_state]
    move_to_respects_locks [where m = "fmap_of_list [(''atom'', JStr ''move_to''), (''target'', JStr ''forest'')]"
      and rules = ex_rules and required_flag = "''has_torch''"
      and h = ex_heap and st = ex_state]
  by (simp add: ex_defs get_def get_default_def dict_contains_def py_eq_def)

section \<open>Inventory\<close>

lemma list_contains_iff: "list_contains xs x \<longleftrightarrow> (\<exists>y\<in>set xs. norm y = norm x)"
  by (simp add: list_contains_def list_ex_iff py_eq_def)

lemma set_list_remove: "set (list_remove xs x) \<subseteq> set xs"
  by (induction xs) auto

lemma length_list_remove: "length (list_remove xs x) \<le> length xs"
  by (induction xs) auto

lemma distinct_list_remove: "distinct xs \<Longrightarrow> distinct (list_remove xs x)"
  using set_list_remove by (induction xs) auto

lemma distinct_norm_list_remove:
  "distinct (map norm xs) \<Longrightarrow> distinct (map norm (list_remove xs x))"
  using set_list_remove by (induction xs) auto

lemma inv_ok_append:
  "inv_ok limit d dn xs \<Longrightarrow> int (length xs) < limit \<Longrightarrow> \<not> list_contains xs x \<Longrightarrow>
   inv_ok limit d dn (xs @ [x])"
  by (auto simp: inv_ok_def list_contains_iff)

lemma inv_ok_remove: "inv_ok limit d dn xs \<Longrightarrow> inv_ok limit d dn (list_remove xs x)"
  using length_list_remove [of xs x]
  by (auto simp: inv_ok_def distinct_list_remove distinct_norm_list_remove)

lemma apply_change_inv_ok:
  assumes "apply_change rules i f change ns h = (Inr ns', h')"
    and "inv_ok (INVENTORY_LIMIT rules) d dn (list_at h i)"
  shows "inv_ok (INVENTORY_LIMIT rules) d dn (list_at h' i)"
proof (cases change rule: change_cases)
  case NotDict then show ?thesis using assms by (simp add: apply_change_not_dict)
next
  case (Move m) then show ?thesis using assms
    by (auto simp: apply_change_move_to split: if_splits option.splits)
next
  case (Add m) then show ?thesis using assms
    by (auto simp: apply_change_add_item inv_ok_append split: if_splits)
next
  case (Remove m) then show ?thesis using assms
    by (auto simp: apply_change_remove_item inv_ok_remove split: if_splits)
next
  case (Flag m) then show ?thesis using assms
    by (auto simp: apply_change_set_flag split: if_splits)
next
  case (Hp m) then show ?thesis using assms
    by (auto simp: apply_change_hp_delta split: if_splits sum.splits)
next
  case (Unknown m) then show ?thesis using assms by (simp add: apply_change_unknown)
qed

lemma apply_loop_inv_ok:
  "apply_loop rules i f changes ns h = (Inr ns', h') \<Longrightarrow>
   inv_ok (INVENTORY_LIMIT rules) d dn (list_at h i) \<Longrightarrow>
   inv_ok (INVENTORY_LIMIT rules) d dn (list_at h' i)"
proof (induction changes arbitrary: ns h)
  case Nil then show ?case by simp
next
  case (Cons c cs)
  obtain r h1 where step: "apply_change rules i f c ns h = (r, h1)"
    by (cases "apply_change rules i f c ns h")
  with Cons.prems obtain ns1 where r: "r = Inr ns1"
    by (cases r) auto
  with step Cons.prems have "inv_ok (INVENTORY_LIMIT rules) d dn (list_at h1 i)"
    using apply_change_inv_ok by blast
  moreover from step r Cons.prems have "apply_loop rules i f cs ns1 h1 = (Inr ns', h')"
    by simp
  ultimately show ?case using Cons.IH by blast
qed

lemma apply_state_changes_inv_ok:
  assumes "apply_state_changes st changes rules h = (Inr st', h')"
    and "inv_ok (INVENTORY_LIMIT rules) d dn (list_at h (inventory st))"
  shows "inv_ok (INVENTORY_LIMIT rules) d dn (list_at h' (inventory st'))"
proof (cases changes)
  case (JList cs)
  with assms(1) have loop: "apply_loop rules (inventory st) (flags st) cs st h = (Inr st', h')"
    by (simp add: apply_state_changes_loop)
  then have "inventory st' = inventory st"
    using apply_loop_fields by blast
  with loop assms(2) show ?thesis
    using apply_loop_inv_ok by simp
qed (use assms in \<open>auto simp: apply_state_changes_def\<close>)

text \<open>
  C7. From an inventory within \<open>INVENTORY_LIMIT\<close>, whatever the atoms are, the
  inventory of the returned state is within the limit; and an inventory without
  duplicates stays without duplicates, both when duplicates are equal values and when
  they are values that Python's \<^verbatim>\<open>==\<close> identifies.
\<close>

theorem inventory_invariants_preserved:
  "apply_state_changes st changes rules h = (Inr st', h') \<and>
   int (length (list_at h (inventory st))) \<le> INVENTORY_LIMIT rules \<longrightarrow>
     int (length (list_at h' (inventory st'))) \<le> INVENTORY_LIMIT rules \<and>
     (distinct (list_at h (inventory st)) \<longrightarrow> distinct (list_at h' (inventory st'))) \<and>
     (distinct (map norm (list_at h (inventory st))) \<longrightarrow>
        distinct (map norm (list_at h' (inventory st'))))"
proof (intro impI conjI)
  assume a: "apply_state_changes st changes rules h = (Inr st', h') \<and>
   int (length (list_at h (inventory st))) \<le> INVENTORY_LIMIT rules"
  then show "int (length (list_at h' (inventory st'))) \<le> INVENTORY_LIMIT rules"
    using apply_state_changes_inv_ok [of st changes rules h st' h' False False]
    by (simp add: inv_ok_def)
  show "distinct (list_at h' (inventory st'))" if "distinct (list_at h (inventory st))"
    using a that apply_state_changes_inv_ok [of st changes rules h st' h' True False]
    by (simp add: inv_ok_def)
  show "distinct (map norm (list_at h' (inventory st')))"
    if "distinct (map norm (list_at h (inventory st)))"
    using a that apply_state_changes_inv_ok [of st changes rules h st' h' False True]
    by (simp add: inv_ok_def)
qed

theorem inventory_invariants_preserved_witness:
  "apply_state_changes ex_state
     (JList [atom1 ''add_item'' ''item'' (JStr ''sword''),
             atom1 ''add_item'' ''item'' (JStr ''shield''),
             atom1 ''add_item'' ''item'' (JStr ''sword'')])
     ex_rules ex_heap =
     (Inr ex_state, ex_heap\<lparr>list_at := (list_at ex_heap)(0 := [JStr ''sword''])\<rparr>) \<and>
   int (length (list_at ex_heap (inventory ex_state))) \<le> INVENTORY_LIMIT ex_rules \<and>
   distinct (list_at ex_heap (inventory ex_state)) \<and>
   distinct (map norm (list_at ex_heap (inventory ex_state))) \<and>
   int (length (list_at (ex_heap\<lparr>list_at := (list_at ex_heap)(0 := [JStr ''sword''])\<rparr>)
     (inventory ex_state))) \<le> INVENTORY_LIMIT ex_rules \<and>
   distinct (list_at (ex_heap\<lparr>list_at := (list_at ex_heap)(0 := [JStr ''sword''])\<rparr>)
     (inventory ex_state)) \<and>
   distinct (map norm (list_at (ex_heap\<lparr>list_at := (list_at ex_heap)(0 := [JStr ''sword''])\<rparr>)
     (inventory ex_state)))"
  using inventory_invariants_preserved [where st = ex_state
      and changes = "JList [atom1 ''add_item'' ''item'' (JStr ''sword''),
             atom1 ''add_item'' ''item'' (JStr ''shield''),
             atom1 ''add_item'' ''item'' (JStr ''sword'')]"
      and rules = ex_rules and h = ex_heap and st' = ex_state
      and h' = "ex_heap\<lparr>list_at := (list_at ex_heap)(0 := [JStr ''sword''])\<rparr>"]
  by (simp add: ex_defs eval_defs)

section \<open>Order of application\<close>

lemma list_remove_appended:
  "\<not> list_contains xs x \<Longrightarrow> list_remove (xs @ [x]) x = xs"
  by (induction xs) (auto simp: list_contains_def py_eq_refl)

lemma list_contains_appended: "list_contains (xs @ [x]) x"
  by (simp add: list_contains_def py_eq_refl)

lemma filter_py_eq_absent:
  "\<not> list_contains xs x \<Longrightarrow> filter (\<lambda>y. py_eq y x) xs = []"
  by (induction xs) (auto simp: list_contains_def)

text \<open>
  An \<^verbatim>\<open>add_item\<close> for an item the inventory already holds changes nothing, and the
  \<^verbatim>\<open>remove_item\<close> after it removes the item: with \<^verbatim>\<open>"sword"\<close> held and room for five
  items, adding and then removing \<^verbatim>\<open>"sword"\<close> leaves an empty inventory, not the
  inventory from before the two atoms.
\<close>

theorem add_then_remove_counterexample:
  "int (length (list_at (ex_heap\<lparr>list_at := (list_at ex_heap)(0 := [JStr ''sword''])\<rparr>)
     (inventory ex_state))) < INVENTORY_LIMIT (ex_rules\<lparr>INVENTORY_LIMIT := 5\<rparr>) \<and>
   apply_state_changes ex_state
     (JList [atom1 ''add_item'' ''item'' (JStr ''sword''),
             atom1 ''remove_item'' ''item'' (JStr ''sword'')])
     (ex_rules\<lparr>INVENTORY_LIMIT := 5\<rparr>)
     (ex_heap\<lparr>list_at := (list_at ex_heap)(0 := [JStr ''sword''])\<rparr>) =
     (Inr ex_state, ex_heap\<lparr>list_at := (list_at ex_heap)(0 := [])\<rparr>) \<and>
   list_at (ex_heap\<lparr>list_at := (list_at ex_heap)(0 := [JStr ''sword''])\<rparr>) (inventory ex_state)
     = [JStr ''sword''] \<and>
   list_at (ex_heap\<lparr>list_at := (list_at ex_heap)(0 := [])\<rparr>) (inventory ex_state) = []"
  by (simp add: ex_defs eval_defs)

text \<open>
  C8, amended. Atoms are applied in the order given. For an inventory below
  \<open>INVENTORY_LIMIT\<close> and an item it does not hold: \<^verbatim>\<open>add_item\<close> then \<^verbatim>\<open>remove_item\<close>
  for that item returns the state and the store as they were, while \<^verbatim>\<open>remove_item\<close>
  then \<^verbatim>\<open>add_item\<close> appends the item, which is then held exactly once.
\<close>

theorem add_remove_order:
  "get m1 ''atom'' = JStr ''add_item'' \<and> get m1 ''item'' = x \<and>
   get m2 ''atom'' = JStr ''remove_item'' \<and> get m2 ''item'' = x \<and>
   int (length (list_at h (inventory st))) < INVENTORY_LIMIT rules \<and>
   \<not> list_contains (list_at h (inventory st)) x \<longrightarrow>
     apply_state_changes st (JList [JObj m1, JObj m2]) rules h = (Inr st, h) \<and>
     apply_state_changes st (JList [JObj m2, JObj m1]) rules h =
       (Inr st, h\<lparr>list_at := (list_at h)(inventory st := list_at h (inventory st) @ [x])\<rparr>) \<and>
     length (filter (\<lambda>y. py_eq y x) (list_at h (inventory st) @ [x])) = 1"
  by (auto simp: apply_state_changes_loop apply_change_add_item apply_change_remove_item
      list_remove_appended list_contains_appended filter_py_eq_absent py_eq_refl)

theorem add_remove_order_witness:
  "int (length (list_at (ex_heap\<lparr>list_at := (list_at ex_heap)(0 := [JStr ''sword''])\<rparr>)
     (inventory ex_state))) < INVENTORY_LIMIT (ex_rules\<lparr>INVENTORY_LIMIT := 5\<rparr>) \<and>
   \<not> list_contains (list_at (ex_heap\<lparr>list_at := (list_at ex_heap)(0 := [JStr ''sword''])\<rparr>)
     (inventory ex_state)) (JStr ''shield'') \<and>
   apply_state_changes ex_state
     (JList [atom1 ''add_item'' ''item'' (JStr ''shield''),
             atom1 ''remove_item'' ''item'' (JStr ''shield'')])
     (ex_rules\<lparr>INVENTORY_LIMIT := 5\<rparr>)
     (ex_heap\<lparr>list_at := (list_at ex_heap)(0 := [JStr ''sword''])\<rparr>) =
     (Inr ex_state, ex_heap\<lparr>list_at := (list_at ex_heap)(0 := [JStr ''sword''])\<rparr>) \<and>
   apply_state_changes ex_state
     (JList [atom1 ''remove_item'' ''item'' (JStr ''shield''),
             atom1 ''add_item'' ''item'' (JStr ''shield'')])
     (ex_rules\<lparr>INVENTORY_LIMIT := 5\<rparr>)
     (ex_heap\<lparr>list_at := (list_at ex_heap)(0 := [JStr ''sword''])\<rparr>) =
     (Inr ex_state, ex_heap\<lparr>list_at := (list_at ex_heap)(0 := [JStr ''sword'', JStr ''shield''])\<rparr>)"
  using add_remove_order [where
      ?m1.0 = "fmap_of_list [(''atom'', JStr ''add_item''), (''item'', JStr ''shield'')]"
      and ?m2.0 = "fmap_of_list [(''atom'', JStr ''remove_item''), (''item'', JStr ''shield'')]"
      and x = "JStr ''shield''" and st = ex_state and rules = "ex_rules\<lparr>INVENTORY_LIMIT := 5\<rparr>"
      and h = "ex_heap\<lparr>list_at := (list_at ex_heap)(0 := [JStr ''sword''])\<rparr>"]
  by (simp add: ex_defs get_def get_default_def list_contains_def py_eq_def)

section \<open>Malformed atoms\<close>

lemma apply_change_not_is_dict:
  "\<not> is_dict change \<Longrightarrow> apply_change rules i f change ns h = (Inr ns, h)"
  by (cases change) (simp_all add: apply_change_not_dict)

text \<open>
  A \<^verbatim>\<open>move_to\<close> atom without a \<^verbatim>\<open>target\<close> is not skipped: \<^verbatim>\<open>change.get("target")\<close> is
  \<^verbatim>\<open>None\<close>, no lock is keyed by \<^verbatim>\<open>None\<close>, and the location is set to \<^verbatim>\<open>None\<close>.
\<close>

theorem missing_field_counterexample:
  "apply_state_changes ex_state (JList [JObj (fmap_of_list [(''atom'', JStr ''move_to'')])])
     ex_rules ex_heap = (Inr (ex_state\<lparr>location := JNull\<rparr>), ex_heap) \<and>
   location ex_state = JStr ''start''"
  by (simp add: ex_defs eval_defs)

text \<open>
  C9, amended. An atom that is not a dict is skipped wherever it stands in the list:
  the call gives what it gives on the list without that atom, so the state is
  unchanged for it and the other atoms are processed. Among the atoms of a recognised
  kind that lack their field, the same holds for an \<^verbatim>\<open>hp_delta\<close> without \<^verbatim>\<open>delta\<close> that
  is reached with a health above 0, and for a \<^verbatim>\<open>remove_item\<close> without \<^verbatim>\<open>item\<close> that is
  reached with an inventory not holding \<^verbatim>\<open>None\<close>. Nothing is stated for a \<^verbatim>\<open>move_to\<close>,
  \<^verbatim>\<open>add_item\<close> or \<^verbatim>\<open>set_flag\<close> that lacks its field.
\<close>

theorem malformed_atom_handling:
  "(\<not> is_dict change \<longrightarrow>
      apply_state_changes st (JList (pre @ change # post)) rules h =
      apply_state_changes st (JList (pre @ post)) rules h) \<and>
   (apply_loop rules (inventory st) (flags st) pre st h = (Inr ns, h1) \<and>
    get m ''atom'' = JStr ''hp_delta'' \<and> fmlookup m ''delta'' = None \<and> 0 < hp ns \<longrightarrow>
      apply_state_changes st (JList (pre @ JObj m # post)) rules h =
      apply_state_changes st (JList (pre @ post)) rules h) \<and>
   (apply_loop rules (inventory st) (flags st) pre st h = (Inr ns, h1) \<and>
    get m ''atom'' = JStr ''remove_item'' \<and> fmlookup m ''item'' = None \<and>
    \<not> list_contains (list_at h1 (inventory st)) JNull \<longrightarrow>
      apply_state_changes st (JList (pre @ JObj m # post)) rules h =
      apply_state_changes st (JList (pre @ post)) rules h)"
proof (intro conjI impI)
  assume "\<not> is_dict change"
  then show "apply_state_changes st (JList (pre @ change # post)) rules h =
      apply_state_changes st (JList (pre @ post)) rules h"
    by (simp add: apply_state_changes_loop apply_loop_append apply_change_not_is_dict
        split: prod.splits sum.splits)
next
  assume a: "apply_loop rules (inventory st) (flags st) pre st h = (Inr ns, h1) \<and>
    get m ''atom'' = JStr ''hp_delta'' \<and> fmlookup m ''delta'' = None \<and> 0 < hp ns"
  then have "apply_change rules (inventory st) (flags st) (JObj m) ns h1 = (Inr ns, h1)"
    by (simp add: apply_change_hp_delta get_default_def)
  with a show "apply_state_changes st (JList (pre @ JObj m # post)) rules h =
      apply_state_changes st (JList (pre @ post)) rules h"
    by (simp add: apply_state_changes_loop apply_loop_append)
next
  assume a: "apply_loop rules (inventory st) (flags st) pre st h = (Inr ns, h1) \<and>
    get m ''atom'' = JStr ''remove_item'' \<and> fmlookup m ''item'' = None \<and>
    \<not> list_contains (list_at h1 (inventory st)) JNull"
  then have "get m ''item'' = JNull"
    by (simp add: get_def get_default_def)
  with a have "apply_change rules (inventory st) (flags st) (JObj m) ns h1 = (Inr ns, h1)"
    by (simp add: apply_change_remove_item)
  with a show "apply_state_changes st (JList (pre @ JObj m # post)) rules h =
      apply_state_changes st (JList (pre @ post)) rules h"
    by (simp add: apply_state_changes_loop apply_loop_append)
qed

theorem malformed_atom_handling_witness:
  "\<not> is_dict (JStr ''go north'') \<and>
   apply_state_changes ex_state
     (JList ([atom1 ''add_item'' ''item'' (JStr ''sword'')] @ JStr ''go north'' #
             [atom1 ''move_to'' ''target'' (JStr ''forest'')])) ex_rules ex_heap =
     (Inr (ex_state\<lparr>location := JStr ''forest''\<rparr>),
      ex_heap\<lparr>list_at := (list_at ex_heap)(0 := [JStr ''sword''])\<rparr>) \<and>
   0 < hp ex_state \<and>
   apply_state_changes ex_state
     (JList ([] @ JObj (fmap_of_list [(''atom'', JStr ''hp_delta'')]) #
             [atom1 ''move_to'' ''target'' (JStr ''forest'')])) ex_rules ex_heap =
     (Inr (ex_state\<lparr>location := JStr ''forest''\<rparr>), ex_heap) \<and>
   \<not> list_contains (list_at ex_heap (inventory ex_state)) JNull \<and>
   apply_state_changes ex_state
     (JList ([] @ JObj (fmap_of_list [(''atom'', JStr ''remove_item'')]) #
             [atom1 ''move_to'' ''target'' (JStr ''forest'')])) ex_rules ex_heap =
     (Inr (ex_state\<lparr>location := JStr ''forest''\<rparr>), ex_heap)"
  using malformed_atom_handling [where change = "JStr ''go north''"
      and pre = "[atom1 ''add_item'' ''item'' (JStr ''sword'')]"
      and post = "[atom1 ''move_to'' ''target'' (JStr ''forest'')]"
      and st = ex_state and rules = ex_rules and h = ex_heap]
    malformed_atom_handling [where pre = "[]"
      and post = "[atom1 ''move_to'' ''target'' (JStr ''forest'')]"
      and st = ex_state and rules = ex_rules and h = ex_heap
      and ns = ex_state and ?h1.0 = ex_heap
      and m = "fmap_of_list [(''atom'', JStr ''hp_delta'')]"]
    malformed_atom_handling [where pre = "[]"
      and post = "[atom1 ''move_to'' ''target'' (JStr ''forest'')]"
      and st = ex_state and rules = ex_rules and h = ex_heap
      and ns = ex_state and ?h1.0 = ex_heap
      and m = "fmap_of_list [(''atom'', JStr ''remove_item'')]"]
  by (simp add: ex_defs eval_defs)

end
